theory Spec2Isabelle
  imports Main "HOL-Library.Sublist" "HOL-Library.AList"
begin

section \<open>The service worker of the dashboard: data model\<close>

text \<open>
  The development embeds \<^verbatim>\<open>src/frontend/service-worker.js\<close>. The worker runs on the
  browser's Cache Storage, fetch and IndexedDB interfaces. Those interfaces are the
  environment of the program: the cache storage is an ordered association list from cache
  names to caches, a cache is an association list from request identities (method and
  absolute URL) to responses, and the network is a function from a request identity to the
  outcome of fetching it. A promise is the sum \<open>js_error + 'a\<close>: \<open>Inl\<close> is a rejection,
  \<open>Inr\<close> a fulfilment.
\<close>

datatype js_error = NetworkError | TypeError | StorageError

type_synonym 'a promise = "js_error + 'a"

record response =
  status :: nat
  statusText :: string
  headers :: "(string \<times> string) list"
  body :: string

text \<open>\<^verbatim>\<open>response.ok\<close>: the status is in the range 200 to 299.\<close>

definition ok :: "response \<Rightarrow> bool" where
  "ok r = (200 \<le> status r \<and> status r \<le> 299)"

text \<open>
  A parsed URL, as \<^verbatim>\<open>new URL(request.url)\<close> gives it: \<open>protocol\<close> is the scheme with
  its colon (\<^verbatim>\<open>https:\<close>), \<open>host\<close> the host name with its port if any, \<open>rest\<close> the path,
  query and fragment. \<open>href\<close> and \<open>origin\<close> are the two properties the worker reads.
\<close>

record URL =
  protocol :: string
  host :: string
  rest :: string

definition href :: "URL \<Rightarrow> string" where
  "href u = protocol u @ ''//'' @ host u @ rest u"

definition origin :: "URL \<Rightarrow> string" where
  "origin u = protocol u @ ''//'' @ host u"

text \<open>
  A request: \<open>req_method\<close> is \<^verbatim>\<open>request.method\<close>, and \<^verbatim>\<open>request.url\<close> is \<open>href (url r)\<close>.
\<close>

record request =
  req_method :: string
  url :: URL

type_synonym req_key = "string \<times> string"

type_synonym cache = "(req_key \<times> response) list"

type_synonym storage = "(string \<times> cache) list"

type_synonym network = "req_key \<Rightarrow> response promise"

text \<open>
  The identity of a request, for the network and for the caches: its method and its URL
  without the fragment (a fragment is not sent to the server, and the Cache API compares
  URLs with their fragments left out).
\<close>

definition strip_fragment :: "string \<Rightarrow> string" where
  "strip_fragment s = takeWhile (\<lambda>c. c \<noteq> CHR ''#'') s"

definition key_of :: "request \<Rightarrow> req_key" where
  "key_of r = (req_method r, strip_fragment (href (url r)))"

text \<open>
  A URL given as a string (\<^verbatim>\<open>cache.match('/offline.html')\<close>, the entries of the asset
  manifest) is a GET request; a path that starts with a slash is resolved against the
  worker's own origin \<open>loc\<close>, an absolute URL stands as it is.
\<close>

definition resolve :: "string \<Rightarrow> string \<Rightarrow> string" where
  "resolve loc s = (if prefix ''/'' s then loc @ s else s)"

definition key_of_string :: "string \<Rightarrow> string \<Rightarrow> req_key" where
  "key_of_string loc s = (''GET'', strip_fragment (resolve loc s))"

text \<open>\<^verbatim>\<open>String.prototype.includes\<close>: the argument occurs as a contiguous substring.\<close>

definition str_includes :: "string \<Rightarrow> string \<Rightarrow> bool" where
  "str_includes s t = sublist t s"

subsection \<open>Cache Storage\<close>

text \<open>
  \<^verbatim>\<open>caches.open(name)\<close> creates the cache when it does not exist; \<^verbatim>\<open>caches.keys()\<close>
  lists the names in creation order; \<^verbatim>\<open>caches.delete(name)\<close> removes the cache of that
  name. The source gives these calls no error path of their own, and the model takes
  them to succeed.
\<close>

definition caches_open :: "string \<Rightarrow> storage \<Rightarrow> storage" where
  "caches_open name cs = (if name \<in> set (map fst cs) then cs else cs @ [(name, [])])"

definition caches_keys :: "storage \<Rightarrow> string list" where
  "caches_keys cs = map fst cs"

definition caches_delete :: "string \<Rightarrow> storage \<Rightarrow> storage" where
  "caches_delete name cs = AList.delete name cs"

definition cache_of :: "string \<Rightarrow> storage \<Rightarrow> cache" where
  "cache_of name cs = (case map_of cs name of Some c \<Rightarrow> c | None \<Rightarrow> [])"

text \<open>
  \<^verbatim>\<open>cache.match(request)\<close> finds nothing for a request whose method is not GET;
  otherwise it returns the entry stored for the request. Request headers are not part of
  the model: a lookup compares method and URL.
\<close>

definition cache_match :: "req_key \<Rightarrow> cache \<Rightarrow> response option" where
  "cache_match k c = (if fst k = ''GET'' then map_of c k else None)"

text \<open>
  \<^verbatim>\<open>cache.put(request, response)\<close> rejects with a TypeError, and stores nothing, when
  the method of the request is not GET, when the scheme of its URL is neither http nor
  https, when the status of the response is 206, or when the response has a \<^verbatim>\<open>Vary\<close>
  header one of whose comma-separated values is \<^verbatim>\<open>*\<close>. Otherwise it replaces or adds
  the entry of the request; beyond these checks the write is taken to succeed. Header
  names are compared without regard to case.
\<close>

definition lower_char :: "char \<Rightarrow> char" where
  "lower_char c =
     (case map_of (zip ''ABCDEFGHIJKLMNOPQRSTUVWXYZ'' ''abcdefghijklmnopqrstuvwxyz'') c of
        Some l \<Rightarrow> l
      | None \<Rightarrow> c)"

fun split_on :: "char \<Rightarrow> string \<Rightarrow> string list" where
  "split_on d [] = [[]]"
| "split_on d (c # cs) =
     (if c = d then [] # split_on d cs
      else (case split_on d cs of
              [] \<Rightarrow> [[c]]
            | w # ws \<Rightarrow> (c # w) # ws))"

definition is_blank :: "char \<Rightarrow> bool" where
  "is_blank c = (c = CHR '' '' \<or> c = CHR 0x09)"

definition trim :: "string \<Rightarrow> string" where
  "trim s = rev (dropWhile is_blank (rev (dropWhile is_blank s)))"

definition vary_star :: "response \<Rightarrow> bool" where
  "vary_star r =
     list_ex (\<lambda>(n, v). map lower_char n = ''vary''
                       \<and> list_ex (\<lambda>f. trim f = ''*'') (split_on CHR '','' v))
             (headers r)"

definition put_accepts :: "req_key \<Rightarrow> response \<Rightarrow> bool" where
  "put_accepts k v =
     (fst k = ''GET''
      \<and> (prefix ''http://'' (snd k) \<or> prefix ''https://'' (snd k))
      \<and> status v \<noteq> 206
      \<and> \<not> vary_star v)"

definition cache_put :: "req_key \<Rightarrow> response \<Rightarrow> cache \<Rightarrow> cache promise" where
  "cache_put k v c = (if put_accepts k v then Inr (AList.update k v c) else Inl TypeError)"

text \<open>
  \<open>put_in name k v cs\<close>: \<^verbatim>\<open>const cache = await caches.open(name); cache.put(k, v)\<close>
  with the promise of \<^verbatim>\<open>put\<close> left unawaited, as both strategies write it. The cache is
  opened in any case; a rejected \<^verbatim>\<open>put\<close> stores nothing and its rejection reaches nobody.
  The storage returned is the one after an accepted write has landed.
\<close>

definition put_in :: "string \<Rightarrow> req_key \<Rightarrow> response \<Rightarrow> storage \<Rightarrow> storage" where
  "put_in name k v cs =
     (let cs' = caches_open name cs in
      case cache_put k v (cache_of name cs') of
        Inr c \<Rightarrow> AList.update name c cs'
      | Inl err \<Rightarrow> cs')"

subsection \<open>Constants of the worker\<close>

definition CACHE_NAME :: string where
  "CACHE_NAME = ''secureai-v1.0.0''"

definition STATIC_CACHE :: string where
  "STATIC_CACHE = ''secureai-static-v1.0.0''"

definition DYNAMIC_CACHE :: string where
  "DYNAMIC_CACHE = ''secureai-dynamic-v1.0.0''"

definition STATIC_ASSETS :: "string list" where
  "STATIC_ASSETS =
     [''/'',
      ''/index.html'',
      ''/css/style.css'',
      ''/js/main.js'',
      ''/js/dashboard.js'',
      ''/js/charts.js'',
      ''/js/voice-commands.js'',
      ''/manifest.json'',
      ''https://fonts.googleapis.com/css2?family=Inter:wght@300;400;500;600;700&display=swap'',
      ''https://cdnjs.cloudflare.com/ajax/libs/font-awesome/6.4.0/css/all.min.css'',
      ''https://cdn.jsdelivr.net/npm/chart.js@4.4.0/dist/chart.umd.js'']"

section \<open>Fetch strategies\<close>

text \<open>
  A strategy returns the promise it settles with, the live fetches it performed (in
  order), and the cache storage it leaves.
\<close>

definition offline_response :: response where
  "offline_response =
     \<lparr>status = 503, statusText = ''Service Unavailable'',
      headers = [(''Content-Type'', ''text/plain'')],
      body = ''Offline - Please check your connection''\<rparr>"

definition cacheFirst ::
  "string \<Rightarrow> network \<Rightarrow> request \<Rightarrow> storage \<Rightarrow> response promise \<times> req_key list \<times> storage" where
  "cacheFirst loc net req cs =
     (let cs1 = caches_open STATIC_CACHE cs in
      case cache_match (key_of req) (cache_of STATIC_CACHE cs1) of
        Some cached \<Rightarrow> (Inr cached, [], cs1)
      | None \<Rightarrow>
          (case net (key_of req) of
             Inr resp \<Rightarrow>
               if ok resp
               then (Inr resp, [key_of req], put_in DYNAMIC_CACHE (key_of req) resp cs1)
               else (Inr resp, [key_of req], cs1)
           | Inl err \<Rightarrow>
               (let cs2 = caches_open STATIC_CACHE cs1 in
                case cache_match (key_of_string loc ''/offline.html'') (cache_of STATIC_CACHE cs2) of
                  Some offlinePage \<Rightarrow> (Inr offlinePage, [key_of req], cs2)
                | None \<Rightarrow> (Inr offline_response, [key_of req], cs2))))"

definition networkFirst ::
  "network \<Rightarrow> request \<Rightarrow> storage \<Rightarrow> response promise \<times> req_key list \<times> storage" where
  "networkFirst net req cs =
     (case net (key_of req) of
        Inr resp \<Rightarrow>
          if ok resp
          then (Inr resp, [key_of req], put_in DYNAMIC_CACHE (key_of req) resp cs)
          else (Inr resp, [key_of req], cs)
      | Inl err \<Rightarrow>
          (let cs1 = caches_open DYNAMIC_CACHE cs in
           case cache_match (key_of req) (cache_of DYNAMIC_CACHE cs1) of
             Some cached \<Rightarrow> (Inr cached, [key_of req], cs1)
           | None \<Rightarrow> (Inl err, [key_of req], cs1)))"

section \<open>The fetch listener\<close>

text \<open>
  The listener returns without calling \<^verbatim>\<open>respondWith\<close> (here \<open>None\<close>: the browser
  handles the request itself) for a request of another origin whose URL contains neither
  of two host names; otherwise it responds with \<open>networkFirst\<close> when the URL contains
  \<^verbatim>\<open>/api/\<close> and with \<open>cacheFirst\<close> when it does not. \<open>loc\<close> is \<^verbatim>\<open>location.origin\<close>.
\<close>

definition on_fetch ::
  "string \<Rightarrow> network \<Rightarrow> request \<Rightarrow> storage \<Rightarrow>
     (response promise \<times> req_key list \<times> storage) option" where
  "on_fetch loc net req cs =
     (let u = url req in
      if origin u \<noteq> loc \<and> \<not> str_includes (href u) ''cdnjs.cloudflare.com''
           \<and> \<not> str_includes (href u) ''fonts.googleapis.com''
      then None
      else if str_includes (href (url req)) ''/api/''
           then Some (networkFirst net req cs)
           else Some (cacheFirst loc net req cs))"

section \<open>Install and activate\<close>

text \<open>
  \<^verbatim>\<open>cache.addAll(urls)\<close> fetches every URL and rejects when a fetch rejects, when a
  response is not ok, or when \<^verbatim>\<open>put\<close> would not accept the entry; it stores the
  responses only when all of them arrived, so a rejected \<open>cache_addAll\<close> leaves the cache
  as it was.
\<close>

fun fetch_all :: "network \<Rightarrow> req_key list \<Rightarrow> (req_key \<times> response) list promise" where
  "fetch_all net [] = Inr []"
| "fetch_all net (k # ks) =
     (case net k of
        Inl err \<Rightarrow> Inl err
      | Inr resp \<Rightarrow>
          if ok resp \<and> put_accepts k resp
          then (case fetch_all net ks of
                  Inl err \<Rightarrow> Inl err
                | Inr rs \<Rightarrow> Inr ((k, resp) # rs))
          else Inl TypeError)"

definition cache_addAll :: "string \<Rightarrow> network \<Rightarrow> string list \<Rightarrow> cache \<Rightarrow> cache promise" where
  "cache_addAll loc net urls c =
     (case fetch_all net (map (key_of_string loc) urls) of
        Inl err \<Rightarrow> Inl err
      | Inr rs \<Rightarrow> Inr (fold (\<lambda>(k, resp). AList.update k resp) rs c))"

text \<open>
  The state of the worker: the cache storage, whether \<^verbatim>\<open>self.skipWaiting()\<close> has been
  called, and whether \<^verbatim>\<open>self.clients.claim()\<close> has been called.
\<close>

record sw =
  caches :: storage
  skip_waiting :: bool
  clients_claimed :: bool

text \<open>
  The install listener hands one promise chain to \<^verbatim>\<open>event.waitUntil\<close>: open the static
  cache, \<open>addAll\<close> the manifest, then \<open>skipWaiting\<close>; the chain ends in a \<^verbatim>\<open>.catch\<close> whose
  handler logs the error and returns, so a rejection of \<open>addAll\<close> becomes a fulfilment of
  the chain. \<open>install\<close> returns the outcome of that chain and the state it leaves.
\<close>

definition install :: "string \<Rightarrow> network \<Rightarrow> sw \<Rightarrow> unit promise \<times> sw" where
  "install loc net s =
     (let cs = caches_open STATIC_CACHE (caches s) in
      case cache_addAll loc net STATIC_ASSETS (cache_of STATIC_CACHE cs) of
        Inr c \<Rightarrow> (Inr (), s\<lparr>caches := AList.update STATIC_CACHE c cs, skip_waiting := True\<rparr>)
      | Inl err \<Rightarrow> (Inr (), s\<lparr>caches := cs\<rparr>))"

text \<open>
  What the browser does with the outcome of the install event: a rejected promise
  discards the worker (it becomes redundant), a fulfilled one installs it, after which it
  can be activated.
\<close>

datatype worker_state = Installed | Redundant

definition after_install :: "unit promise \<Rightarrow> worker_state" where
  "after_install p = (case p of Inr u \<Rightarrow> Installed | Inl err \<Rightarrow> Redundant)"

text \<open>
  The activate listener: list the cache names, keep those that differ from both current
  names, delete each of them, then claim the clients. It returns the outcome of the chain,
  the names it passed to \<^verbatim>\<open>caches.delete\<close> (in order), and the state it leaves.
\<close>

definition activate :: "sw \<Rightarrow> unit promise \<times> string list \<times> sw" where
  "activate s =
     (let cacheNames = caches_keys (caches s);
          old = filter (\<lambda>name. name \<noteq> STATIC_CACHE \<and> name \<noteq> DYNAMIC_CACHE) cacheNames
      in (Inr (), old, s\<lparr>caches := fold caches_delete old (caches s), clients_claimed := True\<rparr>))"

section \<open>Background sync: the upload queue\<close>

text \<open>
  The object store \<^verbatim>\<open>uploads\<close> of the IndexedDB database holds one record per pending
  upload, keyed by \<open>upload_id\<close>; it is modelled by the list of its records in key order.
  Each of the three helpers wraps one IndexedDB request in a promise that rejects when the
  request fires \<^verbatim>\<open>onerror\<close>; the environment \<open>idb_env\<close> says which requests succeed.
\<close>

record upload =
  upload_id :: nat
  upload_file :: string

record idb_env =
  open_ok :: bool
  getAll_ok :: bool
  delete_ok :: "nat \<Rightarrow> bool"

definition openDatabase :: "idb_env \<Rightarrow> upload list \<Rightarrow> upload list promise" where
  "openDatabase env db = (if open_ok env then Inr db else Inl StorageError)"

definition getPendingUploads :: "idb_env \<Rightarrow> upload list \<Rightarrow> upload list promise" where
  "getPendingUploads env db = (if getAll_ok env then Inr db else Inl StorageError)"

definition removePendingUpload :: "idb_env \<Rightarrow> upload list \<Rightarrow> nat \<Rightarrow> upload list promise" where
  "removePendingUpload env db i =
     (if delete_ok env i then Inr (filter (\<lambda>u. upload_id u \<noteq> i) db) else Inl StorageError)"

text \<open>
  The loop of \<open>uploadPendingVideos\<close> over the records read at the start. \<open>send u\<close> is the
  outcome of posting record \<open>u\<close> to \<^verbatim>\<open>/api/videos/upload\<close>. A rejected fetch or a rejected
  removal is an exception inside the \<^verbatim>\<open>for\<close> loop and leaves it. The result is the
  outcome of the loop, the records whose transfer was attempted (in order), and the store.
\<close>

fun upload_loop ::
  "idb_env \<Rightarrow> (upload \<Rightarrow> response promise) \<Rightarrow> upload list \<Rightarrow> upload list \<Rightarrow>
     unit promise \<times> upload list \<times> upload list" where
  "upload_loop env send [] db = (Inr (), [], db)"
| "upload_loop env send (u # pending) db =
     (case send u of
        Inl err \<Rightarrow> (Inl err, [u], db)
      | Inr resp \<Rightarrow>
          if ok resp
          then (case removePendingUpload env db (upload_id u) of
                  Inl err \<Rightarrow> (Inl err, [u], db)
                | Inr db' \<Rightarrow>
                    (case upload_loop env send pending db' of
                       (r, attempted, db'') \<Rightarrow> (r, u # attempted, db'')))
          else (case upload_loop env send pending db of
                  (r, attempted, db'') \<Rightarrow> (r, u # attempted, db'')))"

text \<open>
  The whole function is one \<^verbatim>\<open>try\<close> block whose \<^verbatim>\<open>catch\<close> logs the error, so the
  promise it returns always fulfils.
\<close>

definition uploadPendingVideos ::
  "idb_env \<Rightarrow> (upload \<Rightarrow> response promise) \<Rightarrow> upload list \<Rightarrow>
     unit promise \<times> upload list \<times> upload list" where
  "uploadPendingVideos env send store =
     (case openDatabase env store of
        Inl err \<Rightarrow> (Inr (), [], store)
      | Inr db \<Rightarrow>
          (case getPendingUploads env db of
             Inl err \<Rightarrow> (Inr (), [], store)
           | Inr pending \<Rightarrow>
               (case upload_loop env send pending db of
                  (r, attempted, db') \<Rightarrow> (Inr (), attempted, db'))))"

text \<open>The transfer of a record returned success: the fetch fulfilled with an ok response.\<close>

definition transfer_ok :: "(upload \<Rightarrow> response promise) \<Rightarrow> upload \<Rightarrow> bool" where
  "transfer_ok send u = (case send u of Inr resp \<Rightarrow> ok resp | Inl err \<Rightarrow> False)"

text \<open>The fetch of an asset succeeded: it fulfilled with an ok response.\<close>

definition fetched_ok :: "network \<Rightarrow> req_key \<Rightarrow> bool" where
  "fetched_ok net k = (case net k of Inr resp \<Rightarrow> ok resp | Inl err \<Rightarrow> False)"

section \<open>Values used in the examples\<close>

definition ex_loc :: string where
  "ex_loc = ''https://secureai.example''"

definition resp200 :: "string \<Rightarrow> response" where
  "resp200 b = \<lparr>status = 200, statusText = ''OK'', headers = [], body = b\<rparr>"

definition resp500 :: response where
  "resp500 = \<lparr>status = 500, statusText = ''Internal Server Error'', headers = [], body = []\<rparr>"

definition get_request :: "string \<Rightarrow> string \<Rightarrow> string \<Rightarrow> request" where
  "get_request p h r = \<lparr>req_method = ''GET'', url = \<lparr>protocol = p, host = h, rest = r\<rparr>\<rparr>"

definition ex_index_request :: request where
  "ex_index_request = get_request ''https:'' ''secureai.example'' ''/index.html''"

definition ex_static_storage :: storage where
  "ex_static_storage =
     [(STATIC_CACHE, [((''GET'', ''https://secureai.example/index.html''), resp200 ''index'')])]"

definition ex_offline_storage :: storage where
  "ex_offline_storage =
     [(STATIC_CACHE, [((''GET'', ''https://secureai.example/offline.html''), resp200 ''offline'')])]"

definition net_down :: network where
  "net_down k = Inl NetworkError"

definition ex_api_request :: request where
  "ex_api_request = get_request ''https:'' ''secureai.example'' ''/api/cameras''"

definition ex_foreign_request :: request where
  "ex_foreign_request =
     get_request ''https:'' ''evil.example'' ''/mirror/cdnjs.cloudflare.com/all.min.css''"

definition ex_font_request :: request where
  "ex_font_request = get_request ''https:'' ''fonts.googleapis.com'' ''/css2?family=Inter''"

definition ex_other_request :: request where
  "ex_other_request = get_request ''https:'' ''cdn.jsdelivr.net'' ''/npm/chart.js''"

definition ex_post_request :: request where
  "ex_post_request =
     \<lparr>req_method = ''POST'',
      url = \<lparr>protocol = ''https:'', host = ''secureai.example'', rest = ''/api/reports/generate''\<rparr>\<rparr>"

definition resp206 :: response where
  "resp206 = \<lparr>status = 206, statusText = ''Partial Content'', headers = [], body = ''part''\<rparr>"

definition net_206 :: network where
  "net_206 k = Inr resp206"

definition net_500 :: network where
  "net_500 k = Inr resp500"

definition net_fresh :: network where
  "net_fresh k = Inr (resp200 ''fresh'')"

definition net_css_missing :: network where
  "net_css_missing k =
     (if k = (''GET'', ''https://secureai.example/css/style.css'')
      then Inl NetworkError else Inr (resp200 ''asset''))"

definition ex_dynamic_storage :: storage where
  "ex_dynamic_storage =
     [(DYNAMIC_CACHE, [((''GET'', ''https://secureai.example/api/cameras''), resp200 ''stale'')])]"

definition ex_after_first :: storage where
  "ex_after_first =
     [(STATIC_CACHE, []),
      (DYNAMIC_CACHE, [((''GET'', ''https://secureai.example/index.html''), resp200 ''fresh'')])]"

definition ex_fresh_sw :: sw where
  "ex_fresh_sw = \<lparr>caches = [], skip_waiting = False, clients_claimed = False\<rparr>"

definition ex_sw :: sw where
  "ex_sw =
     \<lparr>caches =
        [(''secureai-static-v0.9.0'', [((''GET'', ''https://secureai.example/''), resp200 ''old'')]),
         (STATIC_CACHE, [((''GET'', ''https://secureai.example/index.html''), resp200 ''index'')]),
         (''secureai-dynamic-v0.9.0'', []),
         (DYNAMIC_CACHE, [])],
      skip_waiting = True, clients_claimed = False\<rparr>"

definition ex_sw_activated :: sw where
  "ex_sw_activated =
     \<lparr>caches =
        [(STATIC_CACHE, [((''GET'', ''https://secureai.example/index.html''), resp200 ''index'')]),
         (DYNAMIC_CACHE, [])],
      skip_waiting = True, clients_claimed = True\<rparr>"

definition env_ok :: idb_env where
  "env_ok = \<lparr>open_ok = True, getAll_ok = True, delete_ok = (\<lambda>i. True)\<rparr>"

definition env_delete_fails :: idb_env where
  "env_delete_fails = \<lparr>open_ok = True, getAll_ok = True, delete_ok = (\<lambda>i. False)\<rparr>"

definition up1 :: upload where
  "up1 = \<lparr>upload_id = 1, upload_file = ''a''\<rparr>"

definition up2 :: upload where
  "up2 = \<lparr>upload_id = 2, upload_file = ''b''\<rparr>"

definition up3 :: upload where
  "up3 = \<lparr>upload_id = 3, upload_file = ''c''\<rparr>"

definition ex_store :: "upload list" where
  "ex_store = [up1, up2, up3]"

definition send_all_ok :: "upload \<Rightarrow> response promise" where
  "send_all_ok u = Inr (resp200 ''stored'')"

definition send_second_500 :: "upload \<Rightarrow> response promise" where
  "send_second_500 u = (if upload_id u = 2 then Inr resp500 else Inr (resp200 ''stored''))"

definition send_second_rejects :: "upload \<Rightarrow> response promise" where
  "send_second_rejects u =
     (if upload_id u = 2 then Inl NetworkError else Inr (resp200 ''stored''))"

section \<open>Basic facts about the cache storage\<close>

lemma static_neq_dynamic: "STATIC_CACHE \<noteq> DYNAMIC_CACHE"
  by (simp add: STATIC_CACHE_def DYNAMIC_CACHE_def)

lemma caches_open_absent:
  "map_of cs name = None \<Longrightarrow> caches_open name cs = cs @ [(name, [])]"
  by (simp add: caches_open_def map_of_eq_None_iff)

lemma caches_open_present_map: "map_of cs name = Some c \<Longrightarrow> caches_open name cs = cs"
  by (auto simp: caches_open_def dest: map_of_SomeD intro: rev_image_eqI)

lemma map_of_caches_open:
  "map_of (caches_open name cs) n =
     (if n = name \<and> map_of cs name = None then Some [] else map_of cs n)"
proof (cases "map_of cs name")
  case None
  then show ?thesis
    by (simp add: caches_open_absent map_add_def split: option.splits)
next
  case (Some c)
  then show ?thesis
    by (simp add: caches_open_present_map)
qed

lemma cache_of_caches_open: "cache_of n (caches_open name cs) = cache_of n cs"
  by (simp add: cache_of_def map_of_caches_open)

lemma caches_open_idem: "caches_open name (caches_open name cs) = caches_open name cs"
  by (simp add: caches_open_def)

lemma caches_open_present: "name \<in> set (map fst cs) \<Longrightarrow> caches_open name cs = cs"
  by (simp add: caches_open_def)

lemma match_Some_present:
  "cache_match k (cache_of name cs) = Some v \<Longrightarrow> name \<in> set (map fst cs)"
proof (cases "map_of cs name")
  case None
  assume "cache_match k (cache_of name cs) = Some v"
  with None show ?thesis
    by (simp add: cache_match_def cache_of_def split: if_splits)
next
  case (Some c)
  then have "(name, c) \<in> set cs"
    by (rule map_of_SomeD)
  then show ?thesis
    by (auto intro: rev_image_eqI)
qed

lemma put_in_accepted:
  "put_accepts k v \<Longrightarrow>
     put_in name k v cs =
       AList.update name (AList.update k v (cache_of name cs)) (caches_open name cs)"
  by (simp add: put_in_def Let_def cache_put_def cache_of_caches_open)

lemma put_in_rejected: "\<not> put_accepts k v \<Longrightarrow> put_in name k v cs = caches_open name cs"
  by (simp add: put_in_def Let_def cache_put_def)

lemma cache_of_put_in_other:
  "n \<noteq> name \<Longrightarrow> cache_of n (put_in name k v cs) = cache_of n cs"
  by (cases "put_accepts k v")
     (simp_all add: put_in_accepted put_in_rejected cache_of_def update_conv' map_of_caches_open)

lemma cache_of_put_in_same:
  "put_accepts k v \<Longrightarrow>
     cache_of name (put_in name k v cs) = AList.update k v (cache_of name cs)"
  by (simp add: put_in_accepted cache_of_def update_conv')

lemma cache_of_put_in_rejected:
  "\<not> put_accepts k v \<Longrightarrow> cache_of n (put_in name k v cs) = cache_of n cs"
  by (simp add: put_in_rejected cache_of_caches_open)

lemma match_update_same: "fst k = ''GET'' \<Longrightarrow> cache_match k (AList.update k v c) = Some v"
  by (simp add: cache_match_def update_conv')

lemma match_after_put_in:
  "put_accepts k v \<Longrightarrow> cache_match k (cache_of name (put_in name k v cs)) = Some v"
  by (simp add: cache_of_put_in_same match_update_same put_accepts_def)

section \<open>Cache-first: a hit in the static partition\<close>

text \<open>
  C5. When the static partition holds an entry for the request, \<open>cacheFirst\<close> returns that
  entry, performs no live fetch, and leaves the cache storage as it was.
\<close>

theorem cacheFirst_hit_no_fetch:
  assumes "cache_match (key_of req) (cache_of STATIC_CACHE cs) = Some cached"
  shows "cacheFirst loc net req cs = (Inr cached, [], cs)"
proof -
  from assms have "STATIC_CACHE \<in> set (map fst cs)"
    by (rule match_Some_present)
  then have "caches_open STATIC_CACHE cs = cs"
    by (rule caches_open_present)
  with assms show ?thesis
    by (simp add: cacheFirst_def)
qed

lemma key_of_ex_index:
  "key_of ex_index_request = (''GET'', ''https://secureai.example/index.html'')"
  by (simp add: key_of_def strip_fragment_def ex_index_request_def get_request_def href_def)

theorem cacheFirst_hit_no_fetch_witness:
  "cache_match (key_of ex_index_request) (cache_of STATIC_CACHE ex_static_storage)
     = Some (resp200 ''index'')
   \<and> cacheFirst ex_loc net_down ex_index_request ex_static_storage
       = (Inr (resp200 ''index''), [], ex_static_storage)"
proof -
  have h: "cache_match (key_of ex_index_request) (cache_of STATIC_CACHE ex_static_storage)
             = Some (resp200 ''index'')"
    by (simp add: key_of_ex_index cache_match_def cache_of_def ex_static_storage_def)
  from cacheFirst_hit_no_fetch [OF h, of ex_loc net_down] h show ?thesis
    by simp
qed

section \<open>Cache-first: a miss in the static partition\<close>

lemma cacheFirst_miss:
  assumes "cache_match (key_of req) (cache_of STATIC_CACHE cs) = None"
  shows "cacheFirst loc net req cs =
     (case net (key_of req) of
        Inr resp \<Rightarrow>
          if ok resp
          then (Inr resp, [key_of req],
                put_in DYNAMIC_CACHE (key_of req) resp (caches_open STATIC_CACHE cs))
          else (Inr resp, [key_of req], caches_open STATIC_CACHE cs)
      | Inl err \<Rightarrow>
          (case cache_match (key_of_string loc ''/offline.html'') (cache_of STATIC_CACHE cs) of
             Some offlinePage \<Rightarrow> (Inr offlinePage, [key_of req], caches_open STATIC_CACHE cs)
           | None \<Rightarrow> (Inr offline_response, [key_of req], caches_open STATIC_CACHE cs)))"
  using assms
  by (simp add: cacheFirst_def Let_def cache_of_caches_open caches_open_idem
           split: sum.splits option.splits)

text \<open>
  C6. When the request misses the static partition and the live fetch rejects,
  \<open>cacheFirst\<close> fulfils with the entry of \<^verbatim>\<open>/offline.html\<close> in the static partition when
  there is one and with the synthesized response of status 503 otherwise; it never rejects
  with the network error.
\<close>

theorem cacheFirst_offline_fallback:
  assumes "cache_match (key_of req) (cache_of STATIC_CACHE cs) = None"
      and "net (key_of req) = Inl err"
  shows "fst (cacheFirst loc net req cs) =
           (case cache_match (key_of_string loc ''/offline.html'') (cache_of STATIC_CACHE cs) of
              Some offlinePage \<Rightarrow> Inr offlinePage
            | None \<Rightarrow> Inr offline_response)
         \<and> status offline_response = 503
         \<and> (\<forall>e. fst (cacheFirst loc net req cs) \<noteq> Inl e)"
  using assms
  by (simp add: cacheFirst_miss offline_response_def split: option.splits)

lemma ex_index_misses:
  "cache_match (key_of ex_index_request) (cache_of STATIC_CACHE []) = None"
  "cache_match (key_of ex_index_request) (cache_of STATIC_CACHE ex_offline_storage) = None"
  by (simp_all add: key_of_ex_index cache_match_def cache_of_def ex_offline_storage_def)

lemma ex_offline_lookup:
  "cache_match (key_of_string ex_loc ''/offline.html'') (cache_of STATIC_CACHE []) = None"
  "cache_match (key_of_string ex_loc ''/offline.html'') (cache_of STATIC_CACHE ex_offline_storage)
     = Some (resp200 ''offline'')"
  by (simp_all add: key_of_string_def strip_fragment_def resolve_def ex_loc_def cache_match_def
        cache_of_def ex_offline_storage_def)

theorem cacheFirst_offline_fallback_witness:
  "net_down (key_of ex_index_request) = Inl NetworkError
   \<and> fst (cacheFirst ex_loc net_down ex_index_request []) = Inr offline_response
   \<and> fst (cacheFirst ex_loc net_down ex_index_request ex_offline_storage)
       = Inr (resp200 ''offline'')
   \<and> status offline_response = 503"
proof -
  have down: "net_down (key_of ex_index_request) = Inl NetworkError"
    by (simp add: net_down_def)
  from cacheFirst_offline_fallback
         [where net = net_down and loc = ex_loc, OF ex_index_misses(1) down]
       cacheFirst_offline_fallback
         [where net = net_down and loc = ex_loc, OF ex_index_misses(2) down]
       down
  show ?thesis
    by (simp add: ex_offline_lookup)
qed

section \<open>Cache-first never reads the dynamic partition\<close>

lemma cacheFirst_static_only:
  assumes "cache_of STATIC_CACHE cs' = cache_of STATIC_CACHE cs"
  shows "fst (cacheFirst loc net req cs') = fst (cacheFirst loc net req cs)
       \<and> fst (snd (cacheFirst loc net req cs')) = fst (snd (cacheFirst loc net req cs))"
  using assms
  by (simp add: cacheFirst_def Let_def cache_of_caches_open split: sum.splits option.splits)

lemma cacheFirst_keeps_static:
  "cache_of STATIC_CACHE (snd (snd (cacheFirst loc net req cs))) = cache_of STATIC_CACHE cs"
  by (simp add: cacheFirst_def Let_def cache_of_caches_open cache_of_put_in_other
        static_neq_dynamic split: sum.splits option.splits)

lemma accepts_https_200:
  "prefix ''https://'' u \<Longrightarrow> put_accepts (''GET'', u) (resp200 b)"
  by (simp add: put_accepts_def resp200_def vary_star_def)

lemma ok_examples: "ok (resp200 b)" "\<not> ok resp500" "ok resp206"
  by (simp_all add: ok_def resp200_def resp500_def resp206_def)

lemma cacheFirst_miss_storage:
  assumes "cache_match (key_of req) (cache_of STATIC_CACHE cs) = None"
  shows "(\<forall>resp. net (key_of req) = Inr resp \<and> ok resp \<and> put_accepts (key_of req) resp \<longrightarrow>
            cache_match (key_of req)
              (cache_of DYNAMIC_CACHE (snd (snd (cacheFirst loc net req cs)))) = Some resp)
       \<and> (\<forall>resp. net (key_of req) = Inr resp \<and> \<not> (ok resp \<and> put_accepts (key_of req) resp) \<longrightarrow>
            (\<forall>n. cache_of n (snd (snd (cacheFirst loc net req cs))) = cache_of n cs))
       \<and> (\<forall>err. net (key_of req) = Inl err \<longrightarrow>
            (\<forall>n. cache_of n (snd (snd (cacheFirst loc net req cs))) = cache_of n cs))"
  by (auto simp: cacheFirst_miss [OF assms] match_after_put_in cache_of_put_in_rejected
        cache_of_caches_open split: option.splits)

text \<open>
  C10 (amended). \<open>cacheFirst\<close> reads the static partition only. For a request absent from
  the static partition, the first call performs a live fetch; it leaves a copy of the
  response in the dynamic partition when the response is ok and \<^verbatim>\<open>cache.put\<close> accepts
  the entry, and it changes the contents of no partition otherwise. A second call for
  the same request performs a live fetch again, and its outcome and its fetches are the
  same for every storage with the same static partition, whatever the dynamic partition
  holds.
\<close>

theorem cacheFirst_never_reads_dynamic:
  assumes miss: "cache_match (key_of req) (cache_of STATIC_CACHE cs) = None"
      and first: "cacheFirst loc net1 req cs = (r1, f1, cs1)"
      and second: "cacheFirst loc net2 req cs1 = (r2, f2, cs2)"
  shows "f1 = [key_of req] \<and> f2 = [key_of req]
       \<and> (\<forall>resp. net1 (key_of req) = Inr resp \<and> ok resp \<and> put_accepts (key_of req) resp \<longrightarrow>
             cache_match (key_of req) (cache_of DYNAMIC_CACHE cs1) = Some resp)
       \<and> (\<forall>resp. net1 (key_of req) = Inr resp \<and> \<not> (ok resp \<and> put_accepts (key_of req) resp) \<longrightarrow>
             (\<forall>n. cache_of n cs1 = cache_of n cs))
       \<and> (\<forall>err. net1 (key_of req) = Inl err \<longrightarrow> (\<forall>n. cache_of n cs1 = cache_of n cs))
       \<and> (\<forall>cs'. cache_of STATIC_CACHE cs' = cache_of STATIC_CACHE cs \<longrightarrow>
             fst (cacheFirst loc net2 req cs') = r2
             \<and> fst (snd (cacheFirst loc net2 req cs')) = f2)"
proof -
  have static1: "cache_of STATIC_CACHE cs1 = cache_of STATIC_CACHE cs"
    using cacheFirst_keeps_static [of loc net1 req cs] first by simp
  then have miss1: "cache_match (key_of req) (cache_of STATIC_CACHE cs1) = None"
    using miss by simp
  have f1: "f1 = [key_of req]"
    using first by (auto simp: cacheFirst_miss [OF miss] split: sum.splits option.splits if_splits)
  have f2: "f2 = [key_of req]"
    using second by (auto simp: cacheFirst_miss [OF miss1] split: sum.splits option.splits if_splits)
  have written: "(\<forall>resp. net1 (key_of req) = Inr resp \<and> ok resp \<and> put_accepts (key_of req) resp \<longrightarrow>
             cache_match (key_of req) (cache_of DYNAMIC_CACHE cs1) = Some resp)
       \<and> (\<forall>resp. net1 (key_of req) = Inr resp \<and> \<not> (ok resp \<and> put_accepts (key_of req) resp) \<longrightarrow>
             (\<forall>n. cache_of n cs1 = cache_of n cs))
       \<and> (\<forall>err. net1 (key_of req) = Inl err \<longrightarrow> (\<forall>n. cache_of n cs1 = cache_of n cs))"
    using cacheFirst_miss_storage [OF miss, of net1 loc] first by simp
  have indep: "fst (cacheFirst loc net2 req cs') = r2
               \<and> fst (snd (cacheFirst loc net2 req cs')) = f2"
    if "cache_of STATIC_CACHE cs' = cache_of STATIC_CACHE cs" for cs'
  proof -
    from that static1 have "cache_of STATIC_CACHE cs' = cache_of STATIC_CACHE cs1"
      by simp
    from cacheFirst_static_only [OF this, of loc net2 req] second show ?thesis
      by simp
  qed
  from f1 f2 written indep show ?thesis
    by blast
qed

text \<open>
  The claim as stated fails for a miss that the server answers with status 500: the
  response is returned and nothing is written, the dynamic partition holds no entry for
  the request afterwards.
\<close>

theorem cacheFirst_miss_not_written_counterexample:
  "cache_match (key_of ex_index_request) (cache_of STATIC_CACHE []) = None
   \<and> net_500 (key_of ex_index_request) = Inr resp500
   \<and> cacheFirst ex_loc net_500 ex_index_request []
       = (Inr resp500, [key_of ex_index_request], [(STATIC_CACHE, [])])
   \<and> cache_match (key_of ex_index_request) (cache_of DYNAMIC_CACHE [(STATIC_CACHE, [])]) = None"
  by (simp add: cacheFirst_miss [OF ex_index_misses(1)] net_500_def ok_examples caches_open_def
        cache_match_def cache_of_def static_neq_dynamic [symmetric])

theorem cacheFirst_never_reads_dynamic_witness:
  "cache_match (key_of ex_index_request) (cache_of STATIC_CACHE []) = None
   \<and> cacheFirst ex_loc net_fresh ex_index_request []
       = (Inr (resp200 ''fresh''), [key_of ex_index_request], ex_after_first)
   \<and> cache_match (key_of ex_index_request) (cache_of DYNAMIC_CACHE ex_after_first)
       = Some (resp200 ''fresh'')
   \<and> cacheFirst ex_loc net_down ex_index_request ex_after_first
       = (Inr offline_response, [key_of ex_index_request], ex_after_first)
   \<and> fst (cacheFirst ex_loc net_down ex_index_request []) = Inr offline_response"
proof -
  have acc': "put_accepts (''GET'', ''https://secureai.example/index.html'') (resp200 ''fresh'')"
    by (simp add: accepts_https_200)
  then have acc: "put_accepts (key_of ex_index_request) (resp200 ''fresh'')"
    by (simp add: key_of_ex_index)
  have stored: "put_in DYNAMIC_CACHE (key_of ex_index_request) (resp200 ''fresh'')
                  (caches_open STATIC_CACHE []) = ex_after_first"
    by (simp add: key_of_ex_index put_in_accepted [OF acc'] caches_open_def cache_of_def
          ex_after_first_def STATIC_CACHE_def DYNAMIC_CACHE_def)
  have first: "cacheFirst ex_loc net_fresh ex_index_request []
                 = (Inr (resp200 ''fresh''), [key_of ex_index_request], ex_after_first)"
    by (simp add: cacheFirst_miss [OF ex_index_misses(1)] net_fresh_def ok_examples stored)
  have miss1: "cache_match (key_of ex_index_request) (cache_of STATIC_CACHE ex_after_first) = None"
    by (simp add: cache_match_def cache_of_def ex_after_first_def)
  have offline1: "cache_match (key_of_string ex_loc ''/offline.html'')
                    (cache_of STATIC_CACHE ex_after_first) = None"
    by (simp add: cache_match_def cache_of_def ex_after_first_def)
  have open1: "caches_open STATIC_CACHE ex_after_first = ex_after_first"
    by (simp add: caches_open_def ex_after_first_def)
  have second: "cacheFirst ex_loc net_down ex_index_request ex_after_first
                  = (Inr offline_response, [key_of ex_index_request], ex_after_first)"
    by (simp add: cacheFirst_miss [OF miss1] net_down_def offline1 open1)
  have same: "cache_of STATIC_CACHE [] = cache_of STATIC_CACHE []"
    by simp
  from cacheFirst_never_reads_dynamic [OF ex_index_misses(1) first second]
  have "cache_match (key_of ex_index_request) (cache_of DYNAMIC_CACHE ex_after_first)
          = Some (resp200 ''fresh'')
        \<and> fst (cacheFirst ex_loc net_down ex_index_request []) = Inr offline_response"
    using same by (simp add: net_fresh_def ok_examples acc)
  with ex_index_misses(1) first second show ?thesis
    by simp
qed

section \<open>Network-first\<close>

lemma key_of_ex_api:
  "key_of ex_api_request = (''GET'', ''https://secureai.example/api/cameras'')"
  by (simp add: key_of_def strip_fragment_def ex_api_request_def get_request_def href_def)

lemma key_of_ex_post:
  "key_of ex_post_request = (''POST'', ''https://secureai.example/api/reports/generate'')"
  by (simp add: key_of_def strip_fragment_def ex_post_request_def href_def)

text \<open>
  C4 (amended). \<open>networkFirst\<close> performs exactly one live fetch, first. When the fetch
  fulfils, its response is the result whatever the dynamic partition holds; a copy is
  stored in the dynamic partition when the response is ok and \<^verbatim>\<open>cache.put\<close> accepts the
  entry (a GET request over http or https, a status other than 206, no \<^verbatim>\<open>Vary: *\<close>);
  otherwise the contents of every partition stay as they were, and a response that is not
  ok leaves the storage untouched. When the fetch rejects, the result is the entry of the
  request in the dynamic partition when there is one, and the rejection otherwise.
\<close>

theorem networkFirst_cases:
  "fst (snd (networkFirst net req cs)) = [key_of req]
   \<and> (\<forall>resp. net (key_of req) = Inr resp \<longrightarrow>
         fst (networkFirst net req cs) = Inr resp
         \<and> (ok resp \<and> put_accepts (key_of req) resp \<longrightarrow>
              cache_match (key_of req)
                (cache_of DYNAMIC_CACHE (snd (snd (networkFirst net req cs)))) = Some resp)
         \<and> (\<not> (ok resp \<and> put_accepts (key_of req) resp) \<longrightarrow>
              (\<forall>n. cache_of n (snd (snd (networkFirst net req cs))) = cache_of n cs))
         \<and> (\<not> ok resp \<longrightarrow> snd (snd (networkFirst net req cs)) = cs))
   \<and> (\<forall>err. net (key_of req) = Inl err \<longrightarrow>
         fst (networkFirst net req cs) =
           (case cache_match (key_of req) (cache_of DYNAMIC_CACHE cs) of
              Some cached \<Rightarrow> Inr cached
            | None \<Rightarrow> Inl err))"
proof -
  have fetched: "fst (snd (networkFirst net req cs)) = [key_of req]"
    by (simp add: networkFirst_def Let_def split: sum.splits option.splits)
  have fulfilled: "fst (networkFirst net req cs) = Inr resp
         \<and> (ok resp \<and> put_accepts (key_of req) resp \<longrightarrow>
              cache_match (key_of req)
                (cache_of DYNAMIC_CACHE (snd (snd (networkFirst net req cs)))) = Some resp)
         \<and> (\<not> (ok resp \<and> put_accepts (key_of req) resp) \<longrightarrow>
              (\<forall>n. cache_of n (snd (snd (networkFirst net req cs))) = cache_of n cs))
         \<and> (\<not> ok resp \<longrightarrow> snd (snd (networkFirst net req cs)) = cs)"
    if "net (key_of req) = Inr resp" for resp
    using that
    by (simp add: networkFirst_def match_after_put_in cache_of_put_in_rejected)
  have rejected: "fst (networkFirst net req cs) =
           (case cache_match (key_of req) (cache_of DYNAMIC_CACHE cs) of
              Some cached \<Rightarrow> Inr cached
            | None \<Rightarrow> Inl err)"
    if "net (key_of req) = Inl err" for err
    using that
    by (simp add: networkFirst_def Let_def cache_of_caches_open split: option.splits)
  from fetched fulfilled rejected show ?thesis
    by blast
qed

text \<open>
  The claim as stated fails for a response that is not ok: the fetch fulfils with status
  500 while the dynamic partition holds an older copy; the 500 response is returned and
  the dynamic partition still holds the older copy, so nothing was mirrored (and the
  cached copy was not served either). It fails as well for a POST request answered 200:
  the response is returned and the dynamic partition, opened for the write, stays empty.
\<close>

theorem networkFirst_not_mirrored_counterexample:
  "net_500 (key_of ex_api_request) = Inr resp500
   \<and> cache_match (key_of ex_api_request) (cache_of DYNAMIC_CACHE ex_dynamic_storage)
       = Some (resp200 ''stale'')
   \<and> networkFirst net_500 ex_api_request ex_dynamic_storage
       = (Inr resp500, [key_of ex_api_request], ex_dynamic_storage)
   \<and> resp500 \<noteq> resp200 ''stale''
   \<and> networkFirst net_fresh ex_post_request []
       = (Inr (resp200 ''fresh''), [key_of ex_post_request], [(DYNAMIC_CACHE, [])])"
proof -
  have "\<not> put_accepts (key_of ex_post_request) (resp200 ''fresh'')"
    by (simp add: key_of_ex_post put_accepts_def)
  then have "networkFirst net_fresh ex_post_request []
       = (Inr (resp200 ''fresh''), [key_of ex_post_request], [(DYNAMIC_CACHE, [])])"
    by (simp add: networkFirst_def net_fresh_def ok_examples put_in_rejected caches_open_def)
  moreover have "networkFirst net_500 ex_api_request ex_dynamic_storage
       = (Inr resp500, [key_of ex_api_request], ex_dynamic_storage)"
    by (simp add: networkFirst_def net_500_def ok_examples)
  moreover have "cache_match (key_of ex_api_request) (cache_of DYNAMIC_CACHE ex_dynamic_storage)
       = Some (resp200 ''stale'')"
    by (simp add: key_of_ex_api cache_match_def cache_of_def ex_dynamic_storage_def)
  moreover have "resp500 \<noteq> resp200 ''stale''"
    by (simp add: resp500_def resp200_def)
  ultimately show ?thesis
    by (simp add: net_500_def)
qed

theorem networkFirst_cases_witness:
  "fst (networkFirst net_fresh ex_api_request ex_dynamic_storage) = Inr (resp200 ''fresh'')
   \<and> cache_match (key_of ex_api_request)
        (cache_of DYNAMIC_CACHE (snd (snd (networkFirst net_fresh ex_api_request ex_dynamic_storage))))
       = Some (resp200 ''fresh'')
   \<and> snd (snd (networkFirst net_500 ex_api_request ex_dynamic_storage)) = ex_dynamic_storage
   \<and> fst (networkFirst net_206 ex_api_request ex_dynamic_storage) = Inr resp206
   \<and> cache_of DYNAMIC_CACHE (snd (snd (networkFirst net_206 ex_api_request ex_dynamic_storage)))
       = cache_of DYNAMIC_CACHE ex_dynamic_storage
   \<and> fst (networkFirst net_fresh ex_post_request []) = Inr (resp200 ''fresh'')
   \<and> cache_of DYNAMIC_CACHE (snd (snd (networkFirst net_fresh ex_post_request []))) = []
   \<and> fst (networkFirst net_down ex_api_request ex_dynamic_storage) = Inr (resp200 ''stale'')
   \<and> fst (networkFirst net_down ex_api_request []) = Inl NetworkError"
proof -
  have acc: "put_accepts (key_of ex_api_request) (resp200 ''fresh'')"
    by (simp add: key_of_ex_api accepts_https_200)
  have no206: "\<not> put_accepts (key_of ex_api_request) resp206"
    by (simp add: put_accepts_def resp206_def)
  have nopost: "\<not> put_accepts (key_of ex_post_request) (resp200 ''fresh'')"
    by (simp add: key_of_ex_post put_accepts_def)
  have fresh: "net_fresh (key_of ex_api_request) = Inr (resp200 ''fresh'')"
      "net_fresh (key_of ex_post_request) = Inr (resp200 ''fresh'')"
    by (simp_all add: net_fresh_def)
  have bad: "net_500 (key_of ex_api_request) = Inr resp500"
    by (simp add: net_500_def)
  have part: "net_206 (key_of ex_api_request) = Inr resp206"
    by (simp add: net_206_def)
  have down: "net_down (key_of ex_api_request) = Inl NetworkError"
    by (simp add: net_down_def)
  have stale: "cache_match (key_of ex_api_request) (cache_of DYNAMIC_CACHE ex_dynamic_storage)
                 = Some (resp200 ''stale'')"
    by (simp add: key_of_ex_api cache_match_def cache_of_def ex_dynamic_storage_def)
  have empty: "cache_of DYNAMIC_CACHE [] = []"
    by (simp add: cache_of_def)
  have none: "cache_match (key_of ex_api_request) [] = None"
    by (simp add: cache_match_def)
  from networkFirst_cases [of net_fresh ex_api_request ex_dynamic_storage]
       networkFirst_cases [of net_500 ex_api_request ex_dynamic_storage]
       networkFirst_cases [of net_206 ex_api_request ex_dynamic_storage]
       networkFirst_cases [of net_fresh ex_post_request "[]"]
       networkFirst_cases [of net_down ex_api_request ex_dynamic_storage]
       networkFirst_cases [of net_down ex_api_request "[]"]
  show ?thesis
    by (simp add: ok_examples acc no206 nopost fresh bad part down stale none empty)
qed

section \<open>Activation\<close>

lemma fold_caches_delete:
  "fold caches_delete ns cs = filter (\<lambda>(n, c). n \<notin> set ns) cs"
proof (induction ns arbitrary: cs)
  case Nil
  then show ?case by simp
next
  case (Cons n ns)
  have "caches_delete n cs = filter (\<lambda>(m, c). m \<noteq> n) cs"
    by (induction cs) (auto simp: caches_delete_def AList.delete_eq)
  with Cons show ?case
    by (auto simp: case_prod_unfold intro: filter_cong)
qed

lemma activate_eq:
  "activate s =
     (Inr (),
      filter (\<lambda>name. name \<noteq> STATIC_CACHE \<and> name \<noteq> DYNAMIC_CACHE) (caches_keys (caches s)),
      s\<lparr>caches := filter (\<lambda>(n, c). n = STATIC_CACHE \<or> n = DYNAMIC_CACHE) (caches s),
        clients_claimed := True\<rparr>)"
proof -
  have "filter (\<lambda>(n, c). n \<notin> set (filter (\<lambda>name. name \<noteq> STATIC_CACHE \<and> name \<noteq> DYNAMIC_CACHE)
                                          (caches_keys (caches s)))) (caches s)
        = filter (\<lambda>(n, c). n = STATIC_CACHE \<or> n = DYNAMIC_CACHE) (caches s)"
    by (rule filter_cong) (auto simp: caches_keys_def intro: rev_image_eqI)
  then show ?thesis
    by (simp add: activate_def Let_def fold_caches_delete)
qed

text \<open>
  C7. \<open>activate\<close> passes to \<^verbatim>\<open>caches.delete\<close> exactly the existing cache names that differ
  from both \<open>STATIC_CACHE\<close> and \<open>DYNAMIC_CACHE\<close>; afterwards the storage holds exactly the
  entries of the two current names, with their contents unchanged, and neither current
  name is among the deleted ones.
\<close>

theorem activate_deletes_exactly_old:
  assumes "activate s = (r, deleted, s')"
  shows "set deleted = {n \<in> set (caches_keys (caches s)). n \<noteq> STATIC_CACHE \<and> n \<noteq> DYNAMIC_CACHE}
       \<and> caches s' = filter (\<lambda>(n, c). n = STATIC_CACHE \<or> n = DYNAMIC_CACHE) (caches s)
       \<and> set (caches_keys (caches s')) = set (caches_keys (caches s)) - set deleted
       \<and> (\<forall>n. n = STATIC_CACHE \<or> n = DYNAMIC_CACHE \<longrightarrow>
              n \<notin> set deleted \<and> map_of (caches s') n = map_of (caches s) n)"
proof -
  from assms have d: "deleted = filter (\<lambda>name. name \<noteq> STATIC_CACHE \<and> name \<noteq> DYNAMIC_CACHE)
                                  (caches_keys (caches s))"
    and c: "caches s' = filter (\<lambda>(n, c). n = STATIC_CACHE \<or> n = DYNAMIC_CACHE) (caches s)"
    by (auto simp: activate_eq)
  have keep: "map_of (filter (\<lambda>(n, c). n = STATIC_CACHE \<or> n = DYNAMIC_CACHE) cs) n = map_of cs n"
    if "n = STATIC_CACHE \<or> n = DYNAMIC_CACHE" for n and cs :: storage
    using that by (induction cs) auto
  from d have "set deleted = {n \<in> set (caches_keys (caches s)). n \<noteq> STATIC_CACHE \<and> n \<noteq> DYNAMIC_CACHE}"
    by auto
  moreover have "set (caches_keys (caches s')) = set (caches_keys (caches s)) - set deleted"
    unfolding c d by (auto simp: caches_keys_def intro: rev_image_eqI)
  moreover have "\<forall>n. n = STATIC_CACHE \<or> n = DYNAMIC_CACHE \<longrightarrow>
              n \<notin> set deleted \<and> map_of (caches s') n = map_of (caches s) n"
    unfolding c using d keep by auto
  ultimately show ?thesis
    using c by blast
qed

lemma activate_ex_sw:
  "activate ex_sw = (Inr (), [''secureai-static-v0.9.0'', ''secureai-dynamic-v0.9.0''], ex_sw_activated)"
  by (simp add: activate_eq ex_sw_def ex_sw_activated_def caches_keys_def STATIC_CACHE_def
        DYNAMIC_CACHE_def)

theorem activate_deletes_exactly_old_witness:
  "activate ex_sw = (Inr (), [''secureai-static-v0.9.0'', ''secureai-dynamic-v0.9.0''], ex_sw_activated)
   \<and> caches_keys (caches ex_sw_activated) = [STATIC_CACHE, DYNAMIC_CACHE]
   \<and> map_of (caches ex_sw_activated) STATIC_CACHE = map_of (caches ex_sw) STATIC_CACHE
   \<and> map_of (caches ex_sw_activated) DYNAMIC_CACHE = map_of (caches ex_sw) DYNAMIC_CACHE"
proof -
  from activate_deletes_exactly_old [OF activate_ex_sw]
  have "map_of (caches ex_sw_activated) STATIC_CACHE = map_of (caches ex_sw) STATIC_CACHE
        \<and> map_of (caches ex_sw_activated) DYNAMIC_CACHE = map_of (caches ex_sw) DYNAMIC_CACHE"
    by blast
  moreover have "caches_keys (caches ex_sw_activated) = [STATIC_CACHE, DYNAMIC_CACHE]"
    by (simp add: caches_keys_def ex_sw_activated_def)
  ultimately show ?thesis
    using activate_ex_sw by simp
qed

text \<open>
  C8. Running \<open>activate\<close> a second time, on the state the first run left, deletes
  nothing, fulfils, and leaves the state as it was.
\<close>

theorem activate_idempotent:
  assumes "activate s = (r1, deleted1, s1)"
      and "activate s1 = (r2, deleted2, s2)"
  shows "deleted2 = [] \<and> r2 = Inr () \<and> s2 = s1"
proof -
  from assms(1) have c1: "caches s1 = filter (\<lambda>(n, c). n = STATIC_CACHE \<or> n = DYNAMIC_CACHE) (caches s)"
    and claimed: "clients_claimed s1"
    by (auto simp: activate_eq)
  have "filter (\<lambda>name. name \<noteq> STATIC_CACHE \<and> name \<noteq> DYNAMIC_CACHE) (caches_keys (caches s1)) = []"
    unfolding c1 by (auto simp: caches_keys_def filter_empty_conv)
  moreover have "filter (\<lambda>(n, c). n = STATIC_CACHE \<or> n = DYNAMIC_CACHE) (caches s1) = caches s1"
    unfolding c1 by simp
  ultimately show ?thesis
    using assms(2) claimed by (auto simp: activate_eq)
qed


theorem activate_idempotent_witness:
  "activate ex_sw = (Inr (), [''secureai-static-v0.9.0'', ''secureai-dynamic-v0.9.0''], ex_sw_activated)
   \<and> activate ex_sw_activated = (Inr (), [], ex_sw_activated)"
proof -
  obtain r2 d2 s2 where second: "activate ex_sw_activated = (r2, d2, s2)"
    by (cases "activate ex_sw_activated") auto
  from activate_idempotent [OF activate_ex_sw second]
  have "d2 = [] \<and> r2 = Inr () \<and> s2 = ex_sw_activated" .
  with second activate_ex_sw show ?thesis
    by simp
qed

section \<open>Routing\<close>

lemma includes_host: "str_includes (href u) (host u)"
  unfolding str_includes_def href_def
  by (metis append.assoc sublist_appendI)

text \<open>
  C9 (amended). A request is handled when it is same-origin or its URL contains
  \<^verbatim>\<open>cdnjs.cloudflare.com\<close> or \<^verbatim>\<open>fonts.googleapis.com\<close> as a substring, and a handled
  request goes to \<open>networkFirst\<close> when its URL contains \<^verbatim>\<open>/api/\<close> and to \<open>cacheFirst\<close>
  otherwise; a cross-origin request whose URL contains neither name is passed through;
  every request to one of the two hosts is handled.
\<close>

theorem on_fetch_routing:
  "(origin (url req) = loc
      \<or> str_includes (href (url req)) ''cdnjs.cloudflare.com''
      \<or> str_includes (href (url req)) ''fonts.googleapis.com'' \<longrightarrow>
        on_fetch loc net req cs =
          (if str_includes (href (url req)) ''/api/''
           then Some (networkFirst net req cs)
           else Some (cacheFirst loc net req cs)))
   \<and> (origin (url req) \<noteq> loc
        \<and> \<not> str_includes (href (url req)) ''cdnjs.cloudflare.com''
        \<and> \<not> str_includes (href (url req)) ''fonts.googleapis.com'' \<longrightarrow>
        on_fetch loc net req cs = None)
   \<and> (host (url req) = ''cdnjs.cloudflare.com'' \<or> host (url req) = ''fonts.googleapis.com'' \<longrightarrow>
        on_fetch loc net req cs \<noteq> None)"
proof -
  have cdn: "str_includes (href (url req)) ''cdnjs.cloudflare.com''"
    if "host (url req) = ''cdnjs.cloudflare.com''"
    using includes_host [of "url req"] that by simp
  have fonts: "str_includes (href (url req)) ''fonts.googleapis.com''"
    if "host (url req) = ''fonts.googleapis.com''"
    using includes_host [of "url req"] that by simp
  have handled: "origin (url req) = loc
      \<or> str_includes (href (url req)) ''cdnjs.cloudflare.com''
      \<or> str_includes (href (url req)) ''fonts.googleapis.com'' \<longrightarrow>
        on_fetch loc net req cs =
          (if str_includes (href (url req)) ''/api/''
           then Some (networkFirst net req cs)
           else Some (cacheFirst loc net req cs))"
    by (simp add: on_fetch_def Let_def)
  have skipped: "origin (url req) \<noteq> loc
        \<and> \<not> str_includes (href (url req)) ''cdnjs.cloudflare.com''
        \<and> \<not> str_includes (href (url req)) ''fonts.googleapis.com'' \<longrightarrow>
        on_fetch loc net req cs = None"
    by (simp add: on_fetch_def Let_def)
  have hosts: "host (url req) = ''cdnjs.cloudflare.com'' \<or> host (url req) = ''fonts.googleapis.com'' \<longrightarrow>
        on_fetch loc net req cs \<noteq> None"
  proof
    assume "host (url req) = ''cdnjs.cloudflare.com'' \<or> host (url req) = ''fonts.googleapis.com''"
    with cdn fonts have "str_includes (href (url req)) ''cdnjs.cloudflare.com''
        \<or> str_includes (href (url req)) ''fonts.googleapis.com''"
      by blast
    with handled have "on_fetch loc net req cs =
          (if str_includes (href (url req)) ''/api/''
           then Some (networkFirst net req cs)
           else Some (cacheFirst loc net req cs))"
      by blast
    then show "on_fetch loc net req cs \<noteq> None"
      by (metis option.distinct(1))
  qed
  from handled skipped hosts show ?thesis
    by blast
qed

lemma sublist_Cons_neq: "x \<noteq> y \<Longrightarrow> sublist (x # xs) (y # ys) = sublist (x # xs) ys"
  by (simp add: sublist_Cons_right)

lemma sublist_Cons_eq:
  "sublist (x # xs) (x # ys) = (prefix xs ys \<or> sublist (x # xs) ys)"
  by (simp add: sublist_Cons_right)

text \<open>
  The claim as stated fails for a cross-origin request to a host outside the allow-list
  whose path mentions one of the two names: the listener does not pass it through, it
  answers it with \<open>cacheFirst\<close>.
\<close>

theorem on_fetch_foreign_host_counterexample:
  "origin (url ex_foreign_request) \<noteq> ex_loc
   \<and> host (url ex_foreign_request) \<noteq> ''cdnjs.cloudflare.com''
   \<and> host (url ex_foreign_request) \<noteq> ''fonts.googleapis.com''
   \<and> on_fetch ex_loc net_down ex_foreign_request []
       = Some (cacheFirst ex_loc net_down ex_foreign_request [])"
  by (simp add: on_fetch_def Let_def ex_foreign_request_def get_request_def origin_def href_def
        ex_loc_def str_includes_def sublist_Cons_neq sublist_Cons_eq)

theorem on_fetch_routing_witness:
  "on_fetch ex_loc net_down ex_font_request []
     = Some (cacheFirst ex_loc net_down ex_font_request [])
   \<and> on_fetch ex_loc net_down ex_other_request [] = None
   \<and> on_fetch ex_loc net_down ex_api_request [] = Some (networkFirst net_down ex_api_request [])"
proof -
  have font: "host (url ex_font_request) = ''fonts.googleapis.com''"
      "\<not> str_includes (href (url ex_font_request)) ''/api/''"
    by (simp_all add: ex_font_request_def get_request_def href_def str_includes_def
          sublist_Cons_neq sublist_Cons_eq)
  have other: "origin (url ex_other_request) \<noteq> ex_loc"
      "\<not> str_includes (href (url ex_other_request)) ''cdnjs.cloudflare.com''"
      "\<not> str_includes (href (url ex_other_request)) ''fonts.googleapis.com''"
    by (simp_all add: ex_other_request_def get_request_def href_def origin_def ex_loc_def
          str_includes_def sublist_Cons_neq sublist_Cons_eq)
  have api: "origin (url ex_api_request) = ex_loc"
      "str_includes (href (url ex_api_request)) ''/api/''"
    by (simp_all add: ex_api_request_def get_request_def href_def origin_def ex_loc_def
          str_includes_def sublist_Cons_neq sublist_Cons_eq)
  from on_fetch_routing [of ex_font_request ex_loc net_down "[]"]
       on_fetch_routing [of ex_other_request ex_loc net_down "[]"]
       on_fetch_routing [of ex_api_request ex_loc net_down "[]"]
       includes_host [of "url ex_font_request"]
  show ?thesis
    by (simp add: font other api)
qed

section \<open>Install\<close>

lemma fetch_all_rejects:
  assumes "\<exists>k \<in> set ks. \<not> fetched_ok net k"
  shows "\<exists>err. fetch_all net ks = Inl err"
  using assms
proof (induction ks)
  case Nil
  then show ?case by simp
next
  case (Cons k ks)
  show ?case
  proof (cases "fetched_ok net k")
    case False
    then show ?thesis
      by (auto simp: fetched_ok_def split: sum.splits)
  next
    case True
    with Cons.prems have "\<exists>k \<in> set ks. \<not> fetched_ok net k"
      by simp
    from Cons.IH [OF this] obtain err where "fetch_all net ks = Inl err" ..
    with True show ?thesis
      by (auto simp: fetched_ok_def split: sum.splits)
  qed
qed

text \<open>
  C1 (amended). When the fetch of some asset of the manifest rejects or is not
  ok, \<open>install\<close> leaves the contents of the static partition as they were (the partition
  is opened, nothing is stored), does not call \<open>skipWaiting\<close>, and fulfils: the error is
  caught inside the listener, so the browser installs the worker.
\<close>

theorem install_failure_swallowed:
  assumes "\<exists>a \<in> set STATIC_ASSETS. \<not> fetched_ok net (key_of_string loc a)"
  shows "install loc net s = (Inr (), s\<lparr>caches := caches_open STATIC_CACHE (caches s)\<rparr>)
       \<and> cache_of STATIC_CACHE (caches (snd (install loc net s)))
           = cache_of STATIC_CACHE (caches s)
       \<and> skip_waiting (snd (install loc net s)) = skip_waiting s
       \<and> after_install (fst (install loc net s)) = Installed"
proof -
  from assms have "\<exists>k \<in> set (map (key_of_string loc) STATIC_ASSETS). \<not> fetched_ok net k"
    by simp
  from fetch_all_rejects [OF this]
  obtain err where "fetch_all net (map (key_of_string loc) STATIC_ASSETS) = Inl err" ..
  then have "install loc net s = (Inr (), s\<lparr>caches := caches_open STATIC_CACHE (caches s)\<rparr>)"
    by (simp add: install_def Let_def cache_addAll_def)
  then show ?thesis
    by (simp add: cache_of_caches_open after_install_def)
qed

text \<open>
  The claim as stated fails: with the style sheet unreachable, the promise of the install
  listener fulfils, and the worker is installed with an empty static partition.
\<close>

theorem install_not_failed_counterexample:
  "net_css_missing (key_of_string ex_loc ''/css/style.css'') = Inl NetworkError
   \<and> install ex_loc net_css_missing ex_fresh_sw
       = (Inr (), \<lparr>caches = [(STATIC_CACHE, [])], skip_waiting = False, clients_claimed = False\<rparr>)
   \<and> after_install (fst (install ex_loc net_css_missing ex_fresh_sw)) = Installed"
  by (simp add: install_def Let_def cache_addAll_def STATIC_ASSETS_def key_of_string_def
        strip_fragment_def put_accepts_def vary_star_def resolve_def ex_loc_def net_css_missing_def ex_fresh_sw_def caches_open_def cache_of_def
        resp200_def ok_def after_install_def)

theorem install_failure_swallowed_witness:
  "''/css/style.css'' \<in> set STATIC_ASSETS
   \<and> \<not> fetched_ok net_css_missing (key_of_string ex_loc ''/css/style.css'')
   \<and> fst (install ex_loc net_css_missing ex_fresh_sw) = Inr ()
   \<and> cache_of STATIC_CACHE (caches (snd (install ex_loc net_css_missing ex_fresh_sw))) = []
   \<and> skip_waiting (snd (install ex_loc net_css_missing ex_fresh_sw)) = False"
proof -
  have mem: "''/css/style.css'' \<in> set STATIC_ASSETS"
    by (simp add: STATIC_ASSETS_def)
  have bad: "\<not> fetched_ok net_css_missing (key_of_string ex_loc ''/css/style.css'')"
    by (simp add: fetched_ok_def net_css_missing_def key_of_string_def strip_fragment_def
          resolve_def ex_loc_def)
  from mem bad
  have "\<exists>a \<in> set STATIC_ASSETS. \<not> fetched_ok net_css_missing (key_of_string ex_loc a)"
    by blast
  moreover have "cache_of STATIC_CACHE (caches ex_fresh_sw) = []"
      and "skip_waiting ex_fresh_sw = False"
    by (simp_all add: ex_fresh_sw_def cache_of_def)
  ultimately show ?thesis
    using install_failure_swallowed [of net_css_missing ex_loc ex_fresh_sw] mem bad
    by (simp add: cache_of_caches_open)
qed

section \<open>The upload queue\<close>

lemma upload_loop_store:
  assumes "upload_loop env send pending db = (r, attempted, db')"
  shows "db' = filter (\<lambda>v. upload_id v \<notin> set (map upload_id
                 (filter (\<lambda>u. transfer_ok send u \<and> delete_ok env (upload_id u)) attempted))) db
         \<and> set attempted \<subseteq> set pending"
  using assms
proof (induction pending arbitrary: db r attempted db')
  case Nil
  then show ?case by simp
next
  case (Cons u pending)
  show ?case
  proof (cases "send u")
    case (Inl err)
    with Cons.prems have "r = Inl err" "attempted = [u]" "db' = db"
      by auto
    moreover have "\<not> transfer_ok send u"
      using Inl by (simp add: transfer_ok_def)
    ultimately show ?thesis
      by simp
  next
    case (Inr resp)
    show ?thesis
    proof (cases "ok resp")
      case False
      obtain r0 a0 d0 where rec: "upload_loop env send pending db = (r0, a0, d0)"
        by (cases "upload_loop env send pending db") auto
      from Cons.prems Inr False rec
      have eqs: "r = r0" "attempted = u # a0" "db' = d0"
        by auto
      have "\<not> transfer_ok send u"
        using Inr False by (simp add: transfer_ok_def)
      with Cons.IH [OF rec] eqs show ?thesis
        by auto
    next
      case True
      have tr: "transfer_ok send u"
        using Inr True by (simp add: transfer_ok_def)
      show ?thesis
      proof (cases "delete_ok env (upload_id u)")
        case False
        with Cons.prems Inr True have "r = Inl StorageError" "attempted = [u]" "db' = db"
          by (auto simp: removePendingUpload_def)
        with False show ?thesis
          by simp
      next
        case del: True
        let ?db1 = "filter (\<lambda>v. upload_id v \<noteq> upload_id u) db"
        obtain r0 a0 d0 where rec: "upload_loop env send pending ?db1 = (r0, a0, d0)"
          by (cases "upload_loop env send pending ?db1") auto
        from Cons.prems Inr True del rec
        have eqs: "r = r0" "attempted = u # a0" "db' = d0"
          by (auto simp: removePendingUpload_def)
        from Cons.IH [OF rec] tr del eqs show ?thesis
          by (auto intro!: filter_cong)
      qed
    qed
  qed
qed

lemma uploadPendingVideos_store:
  assumes "uploadPendingVideos env send store = (r, attempted, store')"
  shows "r = Inr ()
       \<and> store' = filter (\<lambda>v. upload_id v \<notin> set (map upload_id
                 (filter (\<lambda>u. transfer_ok send u \<and> delete_ok env (upload_id u)) attempted))) store
       \<and> set attempted \<subseteq> set store"
proof (cases "open_ok env \<and> getAll_ok env")
  case False
  with assms have "r = Inr ()" "attempted = []" "store' = store"
    by (auto simp: uploadPendingVideos_def openDatabase_def getPendingUploads_def
          split: if_splits)
  then show ?thesis
    by simp
next
  case True
  obtain r0 a0 d0 where rec: "upload_loop env send store store = (r0, a0, d0)"
    by (cases "upload_loop env send store store") auto
  with assms True have "r = Inr ()" "attempted = a0" "store' = d0"
    by (auto simp: uploadPendingVideos_def openDatabase_def getPendingUploads_def)
  with upload_loop_store [OF rec] show ?thesis
    by simp
qed

text \<open>
  C2 (amended). After one pass over a store with distinct keys, no record was
  added, and a record of the store is gone exactly when its transfer was attempted, the
  transfer returned an ok response, and the delete request on the store succeeded. In
  particular no record is removed without a successful transfer.
\<close>

theorem upload_removed_only_after_success:
  assumes "distinct (map upload_id store)"
      and "uploadPendingVideos env send store = (r, attempted, store')"
  shows "r = Inr ()
       \<and> set store' \<subseteq> set store
       \<and> (\<forall>u \<in> set store.
             (u \<notin> set store') =
             (u \<in> set attempted \<and> transfer_ok send u \<and> delete_ok env (upload_id u)))
       \<and> (\<forall>u \<in> set store. u \<notin> set store' \<longrightarrow> transfer_ok send u)"
proof -
  let ?P = "\<lambda>u. transfer_ok send u \<and> delete_ok env (upload_id u)"
  from uploadPendingVideos_store [OF assms(2)]
  have r: "r = Inr ()"
    and st: "store' = filter (\<lambda>v. upload_id v \<notin> set (map upload_id (filter ?P attempted))) store"
    and sub: "set attempted \<subseteq> set store"
    by simp_all
  from assms(1) have inj: "inj_on upload_id (set store)"
    by (simp add: distinct_map)
  have iff: "(u \<notin> set store') = (u \<in> set attempted \<and> ?P u)" if "u \<in> set store" for u
  proof
    assume "u \<notin> set store'"
    with that st obtain w where w: "w \<in> set attempted" "?P w" "upload_id w = upload_id u"
      by auto
    with sub that inj have "w = u"
      by (auto dest: inj_onD)
    with w show "u \<in> set attempted \<and> ?P u"
      by simp
  next
    assume "u \<in> set attempted \<and> ?P u"
    then show "u \<notin> set store'"
      unfolding st by auto
  qed
  from st have "set store' \<subseteq> set store"
    by auto
  with r iff show ?thesis
    by blast
qed


lemma ex_store_distinct: "distinct (map upload_id ex_store)"
  by (simp add: ex_store_def up1_def up2_def up3_def)

lemma ex_store_eval:
  "uploadPendingVideos env_ok send_second_500 ex_store = (Inr (), ex_store, [up2])"
  "uploadPendingVideos env_ok send_second_rejects ex_store = (Inr (), [up1, up2], [up2, up3])"
  by (simp_all add: uploadPendingVideos_def openDatabase_def getPendingUploads_def
        removePendingUpload_def env_ok_def ex_store_def up1_def up2_def up3_def
        send_second_500_def send_second_rejects_def resp200_def resp500_def ok_def)

lemma ex_transfers:
  "transfer_ok send_second_500 up1" "\<not> transfer_ok send_second_500 up2"
  "transfer_ok send_second_500 up3"
  "transfer_ok send_second_rejects up1" "transfer_ok send_second_rejects up3"
  "transfer_ok send_all_ok up1"
  by (simp_all add: transfer_ok_def send_second_500_def send_second_rejects_def send_all_ok_def
        up1_def up2_def up3_def resp200_def resp500_def ok_def)

text \<open>
  The claim as stated fails when the store rejects the delete request: the transfer of
  the record returned success, and the record is still in the store after the pass.
\<close>

theorem upload_not_removed_counterexample:
  "transfer_ok send_all_ok up1
   \<and> uploadPendingVideos env_delete_fails send_all_ok [up1] = (Inr (), [up1], [up1])"
  by (simp add: ex_transfers uploadPendingVideos_def openDatabase_def getPendingUploads_def
        removePendingUpload_def env_delete_fails_def send_all_ok_def resp200_def ok_def)

theorem upload_removed_only_after_success_witness:
  "distinct (map upload_id ex_store)
   \<and> uploadPendingVideos env_ok send_second_500 ex_store = (Inr (), ex_store, [up2])
   \<and> up1 \<notin> set [up2] \<and> transfer_ok send_second_500 up1
   \<and> up2 \<in> set [up2] \<and> \<not> transfer_ok send_second_500 up2
   \<and> uploadPendingVideos env_delete_fails send_all_ok [up1] = (Inr (), [up1], [up1])
   \<and> transfer_ok send_all_ok up1 \<and> \<not> delete_ok env_delete_fails (upload_id up1)"
proof -
  have "up1 \<in> set ex_store" "up1 \<notin> set [up2]"
    by (simp_all add: ex_store_def up1_def up2_def)
  with upload_removed_only_after_success [OF ex_store_distinct ex_store_eval(1)]
  have first: "transfer_ok send_second_500 up1"
    by blast
  have single: "distinct (map upload_id [up1])"
    by simp
  have fails: "uploadPendingVideos env_delete_fails send_all_ok [up1] = (Inr (), [up1], [up1])"
    by (simp add: uploadPendingVideos_def openDatabase_def getPendingUploads_def
          removePendingUpload_def env_delete_fails_def send_all_ok_def resp200_def ok_def)
  from upload_removed_only_after_success [OF single fails]
  have "(up1 \<notin> set [up1]) =
          (up1 \<in> set [up1] \<and> transfer_ok send_all_ok up1
           \<and> delete_ok env_delete_fails (upload_id up1))"
    by simp
  then have second: "\<not> delete_ok env_delete_fails (upload_id up1)"
    by (simp add: ex_transfers)
  from first second fails ex_store_distinct ex_store_eval(1) ex_transfers(2,6) show ?thesis
    by (simp add: up1_def up2_def)
qed

lemma upload_loop_append_ok:
  assumes "\<forall>u \<in> set xs. transfer_ok send u \<and> delete_ok env (upload_id u)"
  shows "upload_loop env send (xs @ ys) db =
           (case upload_loop env send ys
                   (filter (\<lambda>v. upload_id v \<notin> set (map upload_id xs)) db) of
              (r, attempted, db') \<Rightarrow> (r, xs @ attempted, db'))"
  using assms
proof (induction xs arbitrary: db)
  case Nil
  then show ?case by simp
next
  case (Cons x xs)
  from Cons.prems obtain resp where x: "send x = Inr resp" "ok resp" "delete_ok env (upload_id x)"
    by (auto simp: transfer_ok_def split: sum.splits)
  have rest: "\<forall>u \<in> set xs. transfer_ok send u \<and> delete_ok env (upload_id u)"
    using Cons.prems by simp
  have fl: "filter (\<lambda>v. upload_id v \<notin> set (map upload_id xs))
               (filter (\<lambda>v. upload_id v \<noteq> upload_id x) db)
            = filter (\<lambda>v. upload_id v \<notin> set (map upload_id (x # xs))) db"
    by (auto intro: filter_cong)
  show ?case
    using x by (simp add: removePendingUpload_def Cons.IH [OF rest] fl [simplified]
                     split: prod.splits)
qed

lemma upload_loop_all_ok:
  assumes "\<forall>u \<in> set xs. transfer_ok send u \<and> delete_ok env (upload_id u)"
  shows "upload_loop env send xs db =
           (Inr (), xs, filter (\<lambda>v. upload_id v \<notin> set (map upload_id xs)) db)"
  using upload_loop_append_ok [OF assms, of "[]" db] by simp

text \<open>
  C3 (amended). Let the store requests succeed, the keys be distinct, and
  every record but \<open>k\<close> transfer with an ok response. When the transfer of \<open>k\<close> fulfils
  with a response that is not ok, every record is attempted in store order and exactly
  \<open>k\<close> remains. When the transfer of \<open>k\<close> rejects, the pass ends there: the records before
  \<open>k\<close> were attempted and stay removed, \<open>k\<close> and the records after it remain, and the
  records after \<open>k\<close> are not attempted.
\<close>

theorem upload_batch_one_failure:
  assumes env: "open_ok env" "getAll_ok env" "\<forall>u \<in> set store. delete_ok env (upload_id u)"
      and dist: "distinct (map upload_id store)"
      and split: "store = before @ k # after"
      and others: "\<forall>u \<in> set before \<union> set after. transfer_ok send u"
  shows "(\<forall>resp. send k = Inr resp \<and> \<not> ok resp \<longrightarrow>
            uploadPendingVideos env send store = (Inr (), store, [k]))
       \<and> (\<forall>err. send k = Inl err \<longrightarrow>
            uploadPendingVideos env send store = (Inr (), before @ [k], k # after))"
proof -
  have okb: "\<forall>u \<in> set before. transfer_ok send u \<and> delete_ok env (upload_id u)"
    and oka: "\<forall>u \<in> set after. transfer_ok send u \<and> delete_ok env (upload_id u)"
    using env(3) others split by auto
  from dist split have idk: "upload_id k \<notin> upload_id ` set before"
      "upload_id k \<notin> upload_id ` set after"
      "upload_id ` set before \<inter> upload_id ` set after = {}"
    by auto
  have after_before: "filter (\<lambda>v. upload_id v \<notin> set (map upload_id before)) store = k # after"
    unfolding split using idk by (auto simp: filter_empty_conv filter_id_conv)
  have only_k: "filter (\<lambda>v. upload_id v \<notin> set (map upload_id after)) (k # after) = [k]"
    using idk by (auto simp: filter_empty_conv)
  have whole: "uploadPendingVideos env send store =
                 (case upload_loop env send (k # after) (k # after) of
                    (r, attempted, db') \<Rightarrow> (Inr (), before @ attempted, db'))"
    using env(1,2)
    by (simp add: uploadPendingVideos_def openDatabase_def getPendingUploads_def
          upload_loop_append_ok [OF okb, of "k # after" store, unfolded after_before, folded split]
          split: prod.splits)
  have tail: "upload_loop env send after (k # after) = (Inr (), after, [k])"
    by (rule upload_loop_all_ok [OF oka, of "k # after", unfolded only_k])
  have bad: "uploadPendingVideos env send store = (Inr (), store, [k])"
    if "send k = Inr resp" "\<not> ok resp" for resp
    using that unfolding whole by (simp add: tail split)
  have rej: "uploadPendingVideos env send store = (Inr (), before @ [k], k # after)"
    if "send k = Inl err" for err
    using that by (simp add: whole)
  from bad rej show ?thesis
    by blast
qed

text \<open>
  The claim as stated fails twice over at three records with the second failing. When
  the second transfer answers 500, one record remains, not two. When the second transfer
  rejects, the third record is never attempted and two records remain.
\<close>

theorem upload_batch_counterexample:
  "uploadPendingVideos env_ok send_second_500 ex_store = (Inr (), ex_store, [up2])
   \<and> length ex_store = 3
   \<and> length [up2] \<noteq> length ex_store - 1
   \<and> uploadPendingVideos env_ok send_second_rejects ex_store = (Inr (), [up1, up2], [up2, up3])
   \<and> up3 \<notin> set [up1, up2]"
  by (simp add: ex_store_eval) (simp add: ex_store_def up1_def up2_def up3_def)

theorem upload_batch_one_failure_witness:
  "uploadPendingVideos env_ok send_second_500 ex_store = (Inr (), ex_store, [up2])
   \<and> uploadPendingVideos env_ok send_second_rejects ex_store = (Inr (), [up1] @ [up2], up2 # [up3])"
proof -
  have env: "open_ok env_ok" "getAll_ok env_ok" "\<forall>u \<in> set ex_store. delete_ok env_ok (upload_id u)"
    by (simp_all add: env_ok_def)
  have split: "ex_store = [up1] @ up2 # [up3]"
    by (simp add: ex_store_def)
  have o1: "\<forall>u \<in> set [up1] \<union> set [up3]. transfer_ok send_second_500 u"
    and o2: "\<forall>u \<in> set [up1] \<union> set [up3]. transfer_ok send_second_rejects u"
    by (simp_all add: ex_transfers)
  have k1: "send_second_500 up2 = Inr resp500 \<and> \<not> ok resp500"
    and k2: "send_second_rejects up2 = Inl NetworkError"
    by (simp_all add: send_second_500_def send_second_rejects_def up2_def resp500_def ok_def)
  from upload_batch_one_failure [OF env ex_store_distinct split o1] k1
  have "uploadPendingVideos env_ok send_second_500 ex_store = (Inr (), ex_store, [up2])"
    by blast
  moreover from upload_batch_one_failure [OF env ex_store_distinct split o2] k2
  have "uploadPendingVideos env_ok send_second_rejects ex_store
          = (Inr (), [up1] @ [up2], up2 # [up3])"
    by blast
  ultimately show ?thesis
    by simp
qed

end
